theory Spec2Isabelle
  imports Main
begin

section \<open>Session saving in BrowserApplication\<close>

text \<open>
  The three startup modes that \<^verbatim>\<open>BrowserApplication::getNewWindow\<close> switches over
  (\<^verbatim>\<open>src/Browser/BrowserApplication.cpp\<close>, lines 236-248).
\<close>

datatype StartupMode = LoadHomePage | LoadBlankPage | RestoreSession

text \<open>
  One tab of a window as a session snapshot sees it: last URL, serialized navigation
  history and the pinned flag.
\<close>

record WebTab =
  tabUrl :: string
  tabHistory :: string
  tabPinned :: bool

text \<open>
  A \<^verbatim>\<open>MainWindow\<close> object. \<open>windowId\<close> stands for the object's address,
  \<open>isPrivate\<close> is the flag given to the constructor (\<^verbatim>\<open>false\<close> in
  \<^verbatim>\<open>getNewWindow\<close>, \<^verbatim>\<open>true\<close> in \<^verbatim>\<open>getNewPrivateWindow\<close>) and read
  back by \<^verbatim>\<open>m->isPrivate()\<close>; \<open>tabs\<close> is the ordered list of its open tabs.
\<close>

record MainWindow =
  windowId :: nat
  isPrivate :: bool
  tabs :: "WebTab list"

text \<open>
  Modelled from the spec: the \<^verbatim>\<open>SessionManager\<close> member \<^verbatim>\<open>m_sessionMgr\<close>
  (its class is not among the source files; \<^verbatim>\<open>BrowserApplication.cpp\<close> only calls
  \<^verbatim>\<open>alreadySaved\<close>, \<^verbatim>\<open>saveState\<close> and \<^verbatim>\<open>restoreSession\<close>).
  \<open>saveState\<close> snapshots the tabs of the windows it is given to durable storage,
  overwriting the previous snapshot; \<open>alreadySaved\<close> is the guard that tells whether a
  snapshot was persisted in this run. \<open>saveLog\<close> records the argument of every
  \<open>saveState\<close> call, newest first, so that the number of writes and what each of them
  was given can be stated.
\<close>

record SessionManager =
  m_savedSession :: bool
  sessionFile :: "WebTab list list option"
  saveLog :: "MainWindow list list"

definition newSessionManager :: SessionManager where
  "newSessionManager = \<lparr>m_savedSession = False, sessionFile = None, saveLog = []\<rparr>"

definition alreadySaved :: "SessionManager \<Rightarrow> bool" where
  "alreadySaved sm = m_savedSession sm"

definition saveState :: "MainWindow list \<Rightarrow> SessionManager \<Rightarrow> SessionManager" where
  "saveState windows sm =
     sm\<lparr>m_savedSession := True,
        sessionFile := Some (map tabs windows),
        saveLog := windows # saveLog sm\<rparr>"

text \<open>
  The part of the application object that the two save triggers read and write:
  the \<^verbatim>\<open>StartupMode\<close> setting, the list \<^verbatim>\<open>m_browserWindows\<close> of guarded
  pointers (\<^verbatim>\<open>QPointer<MainWindow>\<close>; \<open>None\<close> is a pointer whose window has been
  destroyed) and the session manager.
\<close>

record BrowserApplication =
  startupMode :: StartupMode
  m_browserWindows :: "MainWindow option list"
  m_sessionMgr :: SessionManager

definition newBrowserApplication :: "StartupMode \<Rightarrow> BrowserApplication" where
  "newBrowserApplication mode =
     \<lparr>startupMode = mode, m_browserWindows = [], m_sessionMgr = newSessionManager\<rparr>"

text \<open>
  The loop shared by both triggers (lines 332-340 and 350-358):
  \<^verbatim>\<open>
  std::vector<MainWindow*> windows;
  for (int i = 0; i < m_browserWindows.size(); ++i)
  {
      QPointer<MainWindow> m = m_browserWindows.at(i);
      if (!m.isNull() && !m->isPrivate())
          windows.push_back(m.data());
  }
  \<close>
\<close>

fun savableWindows :: "MainWindow option list \<Rightarrow> MainWindow list" where
  "savableWindows [] = []"
| "savableWindows (None # ms) = savableWindows ms"
| "savableWindows (Some m # ms) =
     (if \<not> isPrivate m then m # savableWindows ms else savableWindows ms)"

text \<open>
  \<^verbatim>\<open>BrowserApplication::beforeBrowserQuit\<close> (lines 325-344), the slot of
  \<^verbatim>\<open>aboutToQuit\<close>.
\<close>

definition beforeBrowserQuit :: "BrowserApplication \<Rightarrow> BrowserApplication" where
  "beforeBrowserQuit app =
     (if startupMode app \<noteq> RestoreSession \<and> alreadySaved (m_sessionMgr app) then app
      else
        let windows = savableWindows (m_browserWindows app) in
        if windows \<noteq> [] then app\<lparr>m_sessionMgr := saveState windows (m_sessionMgr app)\<rparr>
        else app)"

text \<open>
  \<^verbatim>\<open>BrowserApplication::maybeSaveSession\<close> (lines 346-366), the slot of a window's
  \<^verbatim>\<open>aboutToClose\<close>.
\<close>

definition maybeSaveSession :: "BrowserApplication \<Rightarrow> BrowserApplication" where
  "maybeSaveSession app =
     (let windows = savableWindows (m_browserWindows app) in
      if windows = [] \<or> length windows > 1 then app
      else app\<lparr>m_sessionMgr := saveState windows (m_sessionMgr app)\<rparr>)"

text \<open>
  \<^verbatim>\<open>getNewWindow\<close> (lines 222-263) and \<^verbatim>\<open>getNewPrivateWindow\<close> (lines 265-272)
  as far as the window list goes: each constructs a window with its own privacy flag and
  appends it. What the new window shows (home page, blank page or the restored session)
  is decided by code outside these files, so the identity and the tabs of the new window
  are parameters. Only \<^verbatim>\<open>getNewWindow\<close> connects the window's
  \<^verbatim>\<open>aboutToClose\<close> signal to \<^verbatim>\<open>maybeSaveSession\<close>.
\<close>

definition getNewWindow :: "nat \<Rightarrow> WebTab list \<Rightarrow> BrowserApplication \<Rightarrow> BrowserApplication" where
  "getNewWindow wid ts app =
     app\<lparr>m_browserWindows :=
           m_browserWindows app @ [Some \<lparr>windowId = wid, isPrivate = False, tabs = ts\<rparr>]\<rparr>"

definition getNewPrivateWindow :: "nat \<Rightarrow> WebTab list \<Rightarrow> BrowserApplication \<Rightarrow> BrowserApplication" where
  "getNewPrivateWindow wid ts app =
     app\<lparr>m_browserWindows :=
           m_browserWindows app @ [Some \<lparr>windowId = wid, isPrivate = True, tabs = ts\<rparr>]\<rparr>"

text \<open>
  What happens to the application during a run. \<open>AboutToClose i\<close> is the window at
  position \<open>i\<close> of \<^verbatim>\<open>m_browserWindows\<close> emitting \<^verbatim>\<open>aboutToClose\<close>: the slot runs
  only for a live window whose signal was connected, that is one made by
  \<^verbatim>\<open>getNewWindow\<close>. \<open>Destroyed i\<close> is that window being deleted, which nulls its
  guarded pointer. \<open>TabsChanged i ts\<close> is the user changing the tabs of window \<open>i\<close>.
  \<open>AboutToQuit\<close> is the application's \<^verbatim>\<open>aboutToQuit\<close> signal.
\<close>

datatype event =
    NewWindow nat "WebTab list"
  | NewPrivateWindow nat "WebTab list"
  | TabsChanged nat "WebTab list"
  | AboutToClose nat
  | Destroyed nat
  | AboutToQuit

definition windowAt :: "BrowserApplication \<Rightarrow> nat \<Rightarrow> MainWindow option" where
  "windowAt app i =
     (if i < length (m_browserWindows app) then m_browserWindows app ! i else None)"

fun step :: "BrowserApplication \<Rightarrow> event \<Rightarrow> BrowserApplication" where
  "step app (NewWindow wid ts) = getNewWindow wid ts app"
| "step app (NewPrivateWindow wid ts) = getNewPrivateWindow wid ts app"
| "step app (TabsChanged i ts) =
     (case windowAt app i of
        None \<Rightarrow> app
      | Some w \<Rightarrow> app\<lparr>m_browserWindows := (m_browserWindows app)[i := Some (w\<lparr>tabs := ts\<rparr>)]\<rparr>)"
| "step app (AboutToClose i) =
     (case windowAt app i of
        None \<Rightarrow> app
      | Some w \<Rightarrow> if isPrivate w then app else maybeSaveSession app)"
| "step app (Destroyed i) =
     (if i < length (m_browserWindows app)
      then app\<lparr>m_browserWindows := (m_browserWindows app)[i := None]\<rparr>
      else app)"
| "step app AboutToQuit = beforeBrowserQuit app"

definition run :: "BrowserApplication \<Rightarrow> event list \<Rightarrow> BrowserApplication" where
  "run app evs = foldl step app evs"

text \<open>A tab showing the page at \<open>u\<close>, for concrete runs.\<close>

definition page :: "string \<Rightarrow> WebTab" where
  "page u = \<lparr>tabUrl = u, tabHistory = u, tabPinned = False\<rparr>"

text \<open>The number of snapshots persisted so far.\<close>

definition savesDone :: "BrowserApplication \<Rightarrow> nat" where
  "savesDone app = length (saveLog (m_sessionMgr app))"

text \<open>The windows the most recent \<open>saveState\<close> call was given, if there was a call.\<close>

definition lastSaved :: "SessionManager \<Rightarrow> MainWindow list option" where
  "lastSaved sm = (case saveLog sm of [] \<Rightarrow> None | ws # _ \<Rightarrow> Some ws)"

section \<open>The record of closed tabs\<close>

text \<open>
  \<^verbatim>\<open>struct ClosedTabInfo\<close> (\<^verbatim>\<open>src/Browser/Window/BrowserTabWidget.h\<close>, lines 22-46):
  the index of the tab in the tab bar, the last URL, the page history
  (a \<^verbatim>\<open>QByteArray\<close>) and the pinned flag.
\<close>

record ClosedTabInfo =
  index :: int
  url :: string
  pageHistory :: string
  pinned :: bool

text \<open>
  \<^verbatim>\<open>std::deque<ClosedTabInfo> m_closedTabs\<close> (line 220), oldest entry first.
\<close>

type_synonym ClosedTabRing = "ClosedTabInfo list"

text \<open>
  Modelled from the spec: the operations on \<^verbatim>\<open>m_closedTabs\<close>. The member functions
  that fill and empty it (\<^verbatim>\<open>saveTab\<close>, \<^verbatim>\<open>closeTab\<close>, \<^verbatim>\<open>reopenLastTab\<close>,
  \<^verbatim>\<open>canReopenClosedTab\<close>) are only declared in \<^verbatim>\<open>BrowserTabWidget.h\<close>; their
  bodies are not among the source files. The spec gives: \<open>push\<close> appends and, if the
  size then exceeds 30, evicts the oldest entry; \<open>pop\<close> removes and returns the most
  recently closed entry, or returns empty; \<open>canReopen\<close> tells whether there is one.
\<close>

definition push :: "ClosedTabInfo \<Rightarrow> ClosedTabRing \<Rightarrow> ClosedTabRing" where
  "push tabInfo ring =
     (let ring' = ring @ [tabInfo] in if length ring' > 30 then tl ring' else ring')"

definition pop :: "ClosedTabRing \<Rightarrow> ClosedTabInfo option \<times> ClosedTabRing" where
  "pop ring = (if ring = [] then (None, ring) else (Some (last ring), butlast ring))"

definition canReopen :: "ClosedTabRing \<Rightarrow> bool" where
  "canReopen ring = (ring \<noteq> [])"

text \<open>A sequence of pushes, first element pushed first.\<close>

fun pushAll :: "ClosedTabRing \<Rightarrow> ClosedTabInfo list \<Rightarrow> ClosedTabRing" where
  "pushAll ring [] = ring"
| "pushAll ring (t # ts) = pushAll (push t ring) ts"

text \<open>A closed tab that was at position \<open>i\<close>, for concrete rings.\<close>

definition closed :: "int \<Rightarrow> ClosedTabInfo" where
  "closed i = \<lparr>index = i, url = ''https://example.org'', pageHistory = [], pinned = False\<rparr>"

section \<open>Facts about the window filter\<close>

lemma savableWindows_filter:
  "savableWindows ms = map the (filter (\<lambda>m. m \<noteq> None \<and> \<not> isPrivate (the m)) ms)"
  by (induction ms rule: savableWindows.induct) auto

lemma savableWindows_not_private: "w \<in> set (savableWindows ms) \<Longrightarrow> \<not> isPrivate w"
  by (induction ms rule: savableWindows.induct) (auto split: if_splits)

lemma savableWindows_live: "w \<in> set (savableWindows ms) \<Longrightarrow> Some w \<in> set ms"
  by (induction ms rule: savableWindows.induct) (auto split: if_splits)

section \<open>Facts about the two save triggers\<close>

lemma saveLog_saveState: "saveLog (saveState ws sm) = ws # saveLog sm"
  by (simp add: saveState_def)

lemma alreadySaved_saveState: "alreadySaved (saveState ws sm)"
  by (simp add: saveState_def alreadySaved_def)

lemma saveLog_beforeBrowserQuit:
  "saveLog (m_sessionMgr (beforeBrowserQuit app)) =
     (if (startupMode app = RestoreSession \<or> \<not> alreadySaved (m_sessionMgr app))
         \<and> savableWindows (m_browserWindows app) \<noteq> []
      then savableWindows (m_browserWindows app) # saveLog (m_sessionMgr app)
      else saveLog (m_sessionMgr app))"
  by (simp add: beforeBrowserQuit_def Let_def saveLog_saveState)

lemma saveLog_maybeSaveSession:
  "saveLog (m_sessionMgr (maybeSaveSession app)) =
     (if length (savableWindows (m_browserWindows app)) = 1
      then savableWindows (m_browserWindows app) # saveLog (m_sessionMgr app)
      else saveLog (m_sessionMgr app))"
  by (cases "savableWindows (m_browserWindows app)")
     (auto simp add: maybeSaveSession_def Let_def saveLog_saveState)

lemma saveLog_step:
  "saveLog (m_sessionMgr (step app e)) = saveLog (m_sessionMgr app) \<or>
   saveLog (m_sessionMgr (step app e)) = savableWindows (m_browserWindows app) # saveLog (m_sessionMgr app)"
  by (cases e)
     (auto simp add: getNewWindow_def getNewPrivateWindow_def saveLog_beforeBrowserQuit
        saveLog_maybeSaveSession split: option.splits)

lemma startupMode_step: "startupMode (step app e) = startupMode app"
  by (cases e)
     (auto simp add: getNewWindow_def getNewPrivateWindow_def beforeBrowserQuit_def
        maybeSaveSession_def Let_def split: option.splits)

lemma alreadySaved_step:
  "alreadySaved (m_sessionMgr app) \<Longrightarrow> alreadySaved (m_sessionMgr (step app e))"
  by (cases e)
     (auto simp add: getNewWindow_def getNewPrivateWindow_def beforeBrowserQuit_def
        maybeSaveSession_def Let_def alreadySaved_saveState split: option.splits)

lemma run_snoc: "run app (evs @ [e]) = step (run app evs) e"
  by (simp add: run_def)

lemma startupMode_run: "startupMode (run app evs) = startupMode app"
  by (induction evs rule: rev_induct) (simp_all add: run_snoc startupMode_step, simp add: run_def)

lemma alreadySaved_run:
  "alreadySaved (m_sessionMgr app) \<Longrightarrow> alreadySaved (m_sessionMgr (run app evs))"
  by (induction evs rule: rev_induct) (simp_all add: run_snoc alreadySaved_step, simp add: run_def)

lemma sessionFile_step:
  assumes "sessionFile (m_sessionMgr app) = map_option (map tabs) (lastSaved (m_sessionMgr app))"
  shows "sessionFile (m_sessionMgr (step app e)) = map_option (map tabs) (lastSaved (m_sessionMgr (step app e)))"
  using assms
  by (cases e)
     (auto simp add: getNewWindow_def getNewPrivateWindow_def beforeBrowserQuit_def
        maybeSaveSession_def Let_def saveState_def lastSaved_def split: option.splits)

lemma noPrivate_step:
  assumes "\<forall>ws \<in> set (saveLog (m_sessionMgr app)). \<forall>w \<in> set ws. \<not> isPrivate w"
  shows "\<forall>ws \<in> set (saveLog (m_sessionMgr (step app e))). \<forall>w \<in> set ws. \<not> isPrivate w"
  using assms saveLog_step [of app e] savableWindows_not_private [of _ "m_browserWindows app"]
  by auto

section \<open>Which windows a session save is given\<close>

text \<open>
  Claim C2. Every session save, whether made by \<open>beforeBrowserQuit\<close> (the application
  quitting) or by \<open>maybeSaveSession\<close> (a window closing), hands \<open>saveState\<close> windows
  that are not private: the list both triggers build holds only live, non-private
  windows of \<open>m_browserWindows\<close>; each trigger either leaves the log of saves alone or
  adds exactly that list; so along every run that starts with no private window in any
  save, no save ever holds a private window, and the persisted snapshot is always the
  tabs of the windows of the latest save, hence of non-private windows only.
\<close>

theorem session_saves_exclude_private_windows:
  "(\<forall>w \<in> set (savableWindows (m_browserWindows app)).
       \<not> isPrivate w \<and> Some w \<in> set (m_browserWindows app))
   \<and> saveLog (m_sessionMgr (beforeBrowserQuit app))
       \<in> {saveLog (m_sessionMgr app),
          savableWindows (m_browserWindows app) # saveLog (m_sessionMgr app)}
   \<and> saveLog (m_sessionMgr (maybeSaveSession app))
       \<in> {saveLog (m_sessionMgr app),
          savableWindows (m_browserWindows app) # saveLog (m_sessionMgr app)}
   \<and> ((\<forall>ws \<in> set (saveLog (m_sessionMgr app)). \<forall>w \<in> set ws. \<not> isPrivate w)
        \<and> sessionFile (m_sessionMgr app) = map_option (map tabs) (lastSaved (m_sessionMgr app))
      \<longrightarrow> (\<forall>ws \<in> set (saveLog (m_sessionMgr (run app evs))). \<forall>w \<in> set ws. \<not> isPrivate w)
        \<and> sessionFile (m_sessionMgr (run app evs))
            = map_option (map tabs) (lastSaved (m_sessionMgr (run app evs))))"
proof (intro conjI impI)
  show "\<forall>w \<in> set (savableWindows (m_browserWindows app)).
       \<not> isPrivate w \<and> Some w \<in> set (m_browserWindows app)"
    using savableWindows_not_private savableWindows_live by blast
next
  show "saveLog (m_sessionMgr (beforeBrowserQuit app))
       \<in> {saveLog (m_sessionMgr app),
          savableWindows (m_browserWindows app) # saveLog (m_sessionMgr app)}"
    by (simp add: saveLog_beforeBrowserQuit)
next
  show "saveLog (m_sessionMgr (maybeSaveSession app))
       \<in> {saveLog (m_sessionMgr app),
          savableWindows (m_browserWindows app) # saveLog (m_sessionMgr app)}"
    by (simp add: saveLog_maybeSaveSession)
next
  assume h: "(\<forall>ws \<in> set (saveLog (m_sessionMgr app)). \<forall>w \<in> set ws. \<not> isPrivate w)
        \<and> sessionFile (m_sessionMgr app) = map_option (map tabs) (lastSaved (m_sessionMgr app))"
  show "\<forall>ws \<in> set (saveLog (m_sessionMgr (run app evs))). \<forall>w \<in> set ws. \<not> isPrivate w"
  proof (induction evs rule: rev_induct)
    case Nil
    from h show ?case by (simp add: run_def)
  next
    case (snoc e evs)
    then show ?case unfolding run_snoc by (rule noPrivate_step)
  qed
next
  assume h: "(\<forall>ws \<in> set (saveLog (m_sessionMgr app)). \<forall>w \<in> set ws. \<not> isPrivate w)
        \<and> sessionFile (m_sessionMgr app) = map_option (map tabs) (lastSaved (m_sessionMgr app))"
  show "sessionFile (m_sessionMgr (run app evs))
            = map_option (map tabs) (lastSaved (m_sessionMgr (run app evs)))"
  proof (induction evs rule: rev_induct)
    case Nil
    from h show ?case by (simp add: run_def)
  next
    case (snoc e evs)
    then show ?case unfolding run_snoc by (rule sessionFile_step)
  qed
qed

text \<open>
  The theorem at a run in which a first save has happened (one normal window, then a
  quit signal), continued by opening a private and a second normal window and another
  quit signal: the second save holds the two normal windows, the snapshot their tabs, and
  the private window is in neither.
\<close>

theorem session_saves_exclude_private_windows_witness:
  "saveLog (m_sessionMgr
      (run (newBrowserApplication RestoreSession)
         [NewWindow 1 [page ''a.example''], AboutToQuit]))
     = [[\<lparr>windowId = 1, isPrivate = False, tabs = [page ''a.example'']\<rparr>]]
   \<and> saveLog (m_sessionMgr
      (run (run (newBrowserApplication RestoreSession)
              [NewWindow 1 [page ''a.example''], AboutToQuit])
         [NewPrivateWindow 2 [page ''secret.example''], NewWindow 3 [page ''b.example''],
          AboutToQuit]))
     = [[\<lparr>windowId = 1, isPrivate = False, tabs = [page ''a.example'']\<rparr>,
         \<lparr>windowId = 3, isPrivate = False, tabs = [page ''b.example'']\<rparr>],
        [\<lparr>windowId = 1, isPrivate = False, tabs = [page ''a.example'']\<rparr>]]
   \<and> sessionFile (m_sessionMgr
      (run (run (newBrowserApplication RestoreSession)
              [NewWindow 1 [page ''a.example''], AboutToQuit])
         [NewPrivateWindow 2 [page ''secret.example''], NewWindow 3 [page ''b.example''],
          AboutToQuit]))
     = Some [[page ''a.example''], [page ''b.example'']]"
  using session_saves_exclude_private_windows
    [of "run (newBrowserApplication RestoreSession)
           [NewWindow 1 [page ''a.example''], AboutToQuit]"
        "[NewPrivateWindow 2 [page ''secret.example''], NewWindow 3 [page ''b.example''],
          AboutToQuit]"]
  by (simp add: run_def newBrowserApplication_def newSessionManager_def getNewWindow_def
      getNewPrivateWindow_def beforeBrowserQuit_def saveState_def alreadySaved_def Let_def)

section \<open>How often a session is saved\<close>

text \<open>
  Claim C1 as stated, that a session is persisted at most once per run, fails. In
  restore-session mode a normal window and a private window are open; the normal window
  closes, which saves the session (one live non-private window), and is destroyed. A new
  normal window is opened from the private one. Quitting then saves again, since the
  guard of \<open>beforeBrowserQuit\<close> only applies outside restore-session mode; closing the
  new window instead saves again as well, since \<open>maybeSaveSession\<close> never asks
  \<open>alreadySaved\<close>. Neither second save depends on what \<open>alreadySaved\<close> answers.
\<close>

theorem session_saved_twice_counterexample:
  "alreadySaved (m_sessionMgr (run (newBrowserApplication RestoreSession)
      [NewWindow 1 [], NewPrivateWindow 2 [], AboutToClose 0]))
   \<and> savesDone (run (newBrowserApplication RestoreSession)
      [NewWindow 1 [], NewPrivateWindow 2 [], AboutToClose 0]) = 1
   \<and> savesDone (run (newBrowserApplication RestoreSession)
      [NewWindow 1 [], NewPrivateWindow 2 [], AboutToClose 0, Destroyed 0, NewWindow 3 [],
       AboutToQuit]) = 2
   \<and> savesDone (run (newBrowserApplication RestoreSession)
      [NewWindow 1 [], NewPrivateWindow 2 [], AboutToClose 0, Destroyed 0, NewWindow 3 [],
       AboutToClose 2]) = 2"
  by (simp add: run_def newBrowserApplication_def newSessionManager_def getNewWindow_def
      getNewPrivateWindow_def windowAt_def maybeSaveSession_def beforeBrowserQuit_def
      saveState_def alreadySaved_def savesDone_def Let_def)

text \<open>
  Claim C1, amended. Only \<open>beforeBrowserQuit\<close> consults \<open>alreadySaved\<close>, and only when
  the startup mode is not restore-session: from a state of such a run in which a snapshot
  has been persisted, after any further events, quitting persists nothing (the
  application state is unchanged). In restore-session mode, or when nothing has been
  saved yet, quitting persists the live non-private windows whenever there is one; and a
  closing window persists them whenever there is exactly one, whether or not a snapshot
  was persisted before.
\<close>

theorem quit_save_gated_outside_restore_mode:
  "(startupMode app \<noteq> RestoreSession \<and> alreadySaved (m_sessionMgr app)
      \<longrightarrow> beforeBrowserQuit (run app evs) = run app evs)
   \<and> (startupMode app = RestoreSession \<or> \<not> alreadySaved (m_sessionMgr app)
      \<longrightarrow> saveLog (m_sessionMgr (beforeBrowserQuit app)) =
          (if savableWindows (m_browserWindows app) \<noteq> []
           then savableWindows (m_browserWindows app) # saveLog (m_sessionMgr app)
           else saveLog (m_sessionMgr app)))
   \<and> saveLog (m_sessionMgr (maybeSaveSession app)) =
          (if length (savableWindows (m_browserWindows app)) = 1
           then savableWindows (m_browserWindows app) # saveLog (m_sessionMgr app)
           else saveLog (m_sessionMgr app))"
proof (intro conjI impI)
  assume "startupMode app \<noteq> RestoreSession \<and> alreadySaved (m_sessionMgr app)"
  then have "startupMode (run app evs) \<noteq> RestoreSession"
    and "alreadySaved (m_sessionMgr (run app evs))"
    by (simp_all add: startupMode_run alreadySaved_run)
  then show "beforeBrowserQuit (run app evs) = run app evs"
    by (simp add: beforeBrowserQuit_def)
next
  assume "startupMode app = RestoreSession \<or> \<not> alreadySaved (m_sessionMgr app)"
  then show "saveLog (m_sessionMgr (beforeBrowserQuit app)) =
          (if savableWindows (m_browserWindows app) \<noteq> []
           then savableWindows (m_browserWindows app) # saveLog (m_sessionMgr app)
           else saveLog (m_sessionMgr app))"
    by (simp add: saveLog_beforeBrowserQuit)
next
  show "saveLog (m_sessionMgr (maybeSaveSession app)) =
          (if length (savableWindows (m_browserWindows app)) = 1
           then savableWindows (m_browserWindows app) # saveLog (m_sessionMgr app)
           else saveLog (m_sessionMgr app))"
    by (rule saveLog_maybeSaveSession)
qed

text \<open>
  The theorem at a run in home-page mode: the only window closes, which saves the session;
  a second window is opened, and quitting then saves nothing more. And at a run in
  restore-session mode with one window open and nothing saved yet: quitting saves it.
\<close>

theorem quit_save_gated_outside_restore_mode_witness:
  "startupMode (run (newBrowserApplication LoadHomePage) [NewWindow 1 [], AboutToClose 0])
     \<noteq> RestoreSession
   \<and> alreadySaved (m_sessionMgr
       (run (newBrowserApplication LoadHomePage) [NewWindow 1 [], AboutToClose 0]))
   \<and> savesDone (run (run (newBrowserApplication LoadHomePage) [NewWindow 1 [], AboutToClose 0])
       [NewWindow 2 [], AboutToQuit]) = 1
   \<and> beforeBrowserQuit
       (run (run (newBrowserApplication LoadHomePage) [NewWindow 1 [], AboutToClose 0])
          [NewWindow 2 []])
     = run (run (newBrowserApplication LoadHomePage) [NewWindow 1 [], AboutToClose 0])
          [NewWindow 2 []]
   \<and> startupMode (run (newBrowserApplication RestoreSession) [NewWindow 1 []]) = RestoreSession
   \<and> saveLog (m_sessionMgr
       (beforeBrowserQuit (run (newBrowserApplication RestoreSession) [NewWindow 1 []])))
     = [[\<lparr>windowId = 1, isPrivate = False, tabs = []\<rparr>]]"
  using quit_save_gated_outside_restore_mode
    [of "run (newBrowserApplication LoadHomePage) [NewWindow 1 [], AboutToClose 0]"
        "[NewWindow 2 []]"]
    quit_save_gated_outside_restore_mode
    [of "run (newBrowserApplication RestoreSession) [NewWindow 1 []]" "[]"]
  by (simp add: run_def newBrowserApplication_def newSessionManager_def getNewWindow_def
      getNewPrivateWindow_def windowAt_def maybeSaveSession_def beforeBrowserQuit_def
      saveState_def alreadySaved_def savesDone_def Let_def)

section \<open>Facts about the record of closed tabs\<close>

lemma push_below: "length ring < 30 \<Longrightarrow> push t ring = ring @ [t]"
  by (simp add: push_def)

lemma push_full: "length ring = 30 \<Longrightarrow> push t ring = tl ring @ [t]"
  by (cases ring) (simp_all add: push_def)

lemma push_snoc: "\<exists>ring'. push t ring = ring' @ [t]"
  by (cases ring) (auto simp add: push_def Let_def)

lemma length_push: "length ring \<le> 30 \<Longrightarrow> length (push t ring) \<le> 30"
  by (auto simp add: push_def Let_def)

lemma pushAll_drop:
  "length ring \<le> 30 \<Longrightarrow> pushAll ring ts = drop (length (ring @ ts) - 30) (ring @ ts)"
proof (induction ts arbitrary: ring)
  case Nil
  then show ?case by simp
next
  case (Cons t ts)
  have "pushAll (ring) (t # ts) = pushAll (push t ring) ts" by simp
  also have "\<dots> = drop (length (push t ring @ ts) - 30) (push t ring @ ts)"
    using Cons.prems by (intro Cons.IH length_push)
  also have "\<dots> = drop (length (ring @ t # ts) - 30) (ring @ t # ts)"
  proof (cases "length ring < 30")
    case True
    then show ?thesis by (simp add: push_below)
  next
    case False
    with Cons.prems have l: "length ring = 30" by simp
    then obtain a ring' where r: "ring = a # ring'" by (cases ring) auto
    with l show ?thesis by (simp add: push_full)
  qed
  finally show ?case .
qed

lemma length_pushAll: "length ring \<le> 30 \<Longrightarrow> length (pushAll ring ts) \<le> 30"
  by (induction ts arbitrary: ring) (simp_all add: length_push)

lemma pop_snoc: "pop (ring @ [t]) = (Some t, ring)"
  by (simp add: pop_def)

text \<open>
  Claim C3. Starting from a ring of at most 30 entries (the empty ring in particular),
  after every sequence of pushes the ring holds at most 30 entries, and it holds exactly
  the last 30 of the entries that were there or were pushed, in their order: what is
  evicted is always the oldest. A single push below the capacity appends; a push on a
  full ring drops the oldest entry and appends.
\<close>

theorem closed_tab_ring_capacity:
  "(length ring \<le> 30 \<longrightarrow>
      length (pushAll ring ts) \<le> 30
      \<and> pushAll ring ts = drop (length (ring @ ts) - 30) (ring @ ts))
   \<and> (length ring < 30 \<longrightarrow> push t ring = ring @ [t])
   \<and> (length ring = 30 \<longrightarrow> push t ring = tl ring @ [t])
   \<and> length (pushAll [] ts) = min 30 (length ts)"
proof (intro conjI impI)
  assume "length ring \<le> 30"
  then show "length (pushAll ring ts) \<le> 30" by (rule length_pushAll)
next
  assume "length ring \<le> 30"
  then show "pushAll ring ts = drop (length (ring @ ts) - 30) (ring @ ts)"
    by (rule pushAll_drop)
next
  assume "length ring < 30"
  then show "push t ring = ring @ [t]" by (rule push_below)
next
  assume "length ring = 30"
  then show "push t ring = tl ring @ [t]" by (rule push_full)
next
  have "pushAll [] ts = drop (length ts - 30) ts"
    using pushAll_drop [of "[]" ts] by simp
  then show "length (pushAll [] ts) = min 30 (length ts)" by simp
qed

text \<open>
  The theorem at a full ring of the closed tabs 1 to 30, on which 31 and 32 are pushed
  (tabs 1 and 2 are evicted), and at a ring of one entry, below the capacity.
\<close>

theorem closed_tab_ring_capacity_witness:
  "length [closed 1, closed 2, closed 3, closed 4, closed 5, closed 6, closed 7, closed 8,
    closed 9, closed 10, closed 11, closed 12, closed 13, closed 14, closed 15, closed 16,
    closed 17, closed 18, closed 19, closed 20, closed 21, closed 22, closed 23, closed 24,
    closed 25, closed 26, closed 27, closed 28, closed 29, closed 30] = 30
   \<and> pushAll [closed 1, closed 2, closed 3, closed 4, closed 5, closed 6, closed 7,
     closed 8, closed 9, closed 10, closed 11, closed 12, closed 13, closed 14, closed 15,
     closed 16, closed 17, closed 18, closed 19, closed 20, closed 21, closed 22, closed 23,
     closed 24, closed 25, closed 26, closed 27, closed 28, closed 29, closed 30] [closed 31,
     closed 32]
     = [closed 3, closed 4, closed 5, closed 6, closed 7, closed 8, closed 9, closed 10,
       closed 11, closed 12, closed 13, closed 14, closed 15, closed 16, closed 17, closed 18,
       closed 19, closed 20, closed 21, closed 22, closed 23, closed 24, closed 25, closed 26,
       closed 27, closed 28, closed 29, closed 30, closed 31, closed 32]
   \<and> push (closed 31) [closed 1, closed 2, closed 3, closed 4, closed 5, closed 6, closed 7,
     closed 8, closed 9, closed 10, closed 11, closed 12, closed 13, closed 14, closed 15,
     closed 16, closed 17, closed 18, closed 19, closed 20, closed 21, closed 22, closed 23,
     closed 24, closed 25, closed 26, closed 27, closed 28, closed 29, closed 30]
     = [closed 2, closed 3, closed 4, closed 5, closed 6, closed 7, closed 8, closed 9,
       closed 10, closed 11, closed 12, closed 13, closed 14, closed 15, closed 16, closed 17,
       closed 18, closed 19, closed 20, closed 21, closed 22, closed 23, closed 24, closed 25,
       closed 26, closed 27, closed 28, closed 29, closed 30, closed 31]
   \<and> push (closed 2) [closed 1] = [closed 1, closed 2]"
  using closed_tab_ring_capacity
      [of "[closed 1, closed 2, closed 3, closed 4, closed 5, closed 6, closed 7, closed 8,
        closed 9, closed 10, closed 11, closed 12, closed 13, closed 14, closed 15, closed 16,
        closed 17, closed 18, closed 19, closed 20, closed 21, closed 22, closed 23, closed 24,
        closed 25, closed 26, closed 27, closed 28, closed 29, closed 30]" "[closed 31,
        closed 32]" "closed 31"]
    closed_tab_ring_capacity [of "[closed 1]" "[]" "closed 2"]
  by (simp add: push_def)

text \<open>
  Claim C4. The ring is last-in first-out: from every ring, after \<open>push A\<close> and then
  \<open>push B\<close>, the first \<open>pop\<close> returns \<open>B\<close> and the next one \<open>A\<close>; \<open>pop\<close> removes
  the entry it returns (popping a ring whose newest entry is \<open>t\<close> returns \<open>t\<close> and
  leaves the rest); \<open>pop\<close> on the empty ring returns nothing and leaves it empty; and
  \<open>canReopen\<close> tells whether \<open>pop\<close> would return an entry.
\<close>

theorem closed_tab_ring_lifo:
  "fst (pop (push B (push A ring))) = Some B
   \<and> fst (pop (snd (pop (push B (push A ring))))) = Some A
   \<and> pop (ring @ [t]) = (Some t, ring)
   \<and> pop [] = (None, [])
   \<and> canReopen ring = (fst (pop ring) \<noteq> None)"
proof -
  obtain r1 where a: "push A ring = r1 @ [A]" using push_snoc by blast
  have "push B (r1 @ [A]) = (if 29 \<le> length r1 then tl r1 else r1) @ [A, B]"
    by (cases r1) (simp_all add: push_def Let_def)
  then obtain r2 where b: "push B (r1 @ [A]) = r2 @ [A, B]" by blast
  have "pop (push B (push A ring)) = (Some B, r2 @ [A])"
    using pop_snoc [of "r2 @ [A]" B] by (simp add: a b)
  moreover have "pop (r2 @ [A]) = (Some A, r2)" by (rule pop_snoc)
  moreover have "canReopen ring = (fst (pop ring) \<noteq> None)"
    by (simp add: pop_def canReopen_def)
  ultimately show ?thesis by (simp add: pop_snoc pop_def)
qed

end
